theory Spec2Isabelle
  imports Main "HOL-Library.AList"
begin

section \<open>JSON documents and patch operations\<close>

text \<open>
  A document is a JSON value. \<open>JUndefined\<close> is JavaScript's \<open>undefined\<close>: the result of
  reading an absent member, the value of a hole in an array, and a value an operation may
  carry (\<open>value: any\<close>). Numbers are only ever compared by the code below, never
  computed with, so they are integers here. An object is the list of its members in
  insertion order.
\<close>

datatype json =
    JUndefined
  | JNull
  | JBool bool
  | JNum int
  | JStr string
  | JArr "json list"
  | JObj "(string \<times> json) list"

text \<open>
  \<open>types.ts\<close>: \<open>JsonPatchOperation\<close> is a union of seven shapes told apart by \<open>op\<close>. Every
  shape has a \<open>path\<close>; add, replace, test and \<open>_get\<close> carry a \<open>value\<close>; move and copy carry
  a \<open>from\<close>.
\<close>

datatype JsonPatchOperation =
    AddOperation string json
  | RemoveOperation string
  | ReplaceOperation string json
  | MoveOperation string string
  | CopyOperation string string
  | TestOperation string json
  | GetOperation string json

fun op_path :: "JsonPatchOperation \<Rightarrow> string" where
  "op_path (AddOperation path v) = path"
| "op_path (RemoveOperation path) = path"
| "op_path (ReplaceOperation path v) = path"
| "op_path (MoveOperation path src) = path"
| "op_path (CopyOperation path src) = path"
| "op_path (TestOperation path v) = path"
| "op_path (GetOperation path v) = path"

text \<open>
  What a call can throw. \<open>TypeError\<close> is the JavaScript error of reading or writing a
  member of \<open>null\<close> or \<open>undefined\<close>, and the error the library raises for a banned
  prototype key. \<open>TestOperationFailed\<close> is the library's \<open>JsonPatchError\<close> of a failed
  test. \<open>OutsideJson\<close> is not an error of the program: it marks the inputs on which
  the program leaves the JSON data model (see \<open>getMember\<close>), where this development
  says nothing.
\<close>

datatype error = TypeError | TestOperationFailed | OutsideJson

text \<open>\<open>types.ts\<close>: \<open>PatchResult\<close>, the discriminated result of \<open>safePatch\<close>.\<close>

datatype 'a PatchResult = Success 'a | Failure error

section \<open>The patch library the patcher calls\<close>

text \<open>
  \<open>patcher.ts\<close> imports \<open>getValueByPointer\<close> and \<open>applyPatch\<close> from the package
  \<open>fast-json-patch\<close>, which is a dependency of the repository and not part of its
  sources, and calls \<open>applyPatch(target, [operation], false, true)\<close>: the third argument
  is \<open>validateOperation\<close>, the fourth \<open>mutateDocument\<close>. This section describes these two
  functions of the package (version 3, \<open>core.ts\<close>), and the functions they call, for
  exactly that mode: no validation, the document mutated in place, and
  \<open>banPrototypeModifications\<close> at its default \<open>true\<close>. With validation off the package
  checks nothing about a path: the only errors left are a failed test, the banned
  prototype keys, and the \<open>TypeError\<close> of JavaScript itself. The package walks the
  pointer down the document and mutates the container it reaches; here the walk returns
  the document rebuilt around the changed container.
\<close>

subsection \<open>Pointers\<close>

text \<open>\<open>path.split('/')\<close>.\<close>

fun split_slash :: "string \<Rightarrow> string list" where
  "split_slash [] = [[]]"
| "split_slash (c # cs) =
     (if c = CHR ''/'' then [] # split_slash cs
      else (case split_slash cs of [] \<Rightarrow> [[c]] | seg # segs \<Rightarrow> (c # seg) # segs))"

text \<open>\<open>s.replace(/~d/g, r)\<close> for a digit \<open>d\<close>: every \<open>~d\<close>, left to right.\<close>

fun replaceTilde :: "char \<Rightarrow> char \<Rightarrow> string \<Rightarrow> string" where
  "replaceTilde d r (a # b # cs) =
     (if a = CHR ''~'' \<and> b = d then r # replaceTilde d r cs
      else a # replaceTilde d r (b # cs))"
| "replaceTilde d r cs = cs"

definition unescapePathComponent :: "string \<Rightarrow> string" where
  "unescapePathComponent path =
     replaceTilde (CHR ''0'') (CHR ''~'') (replaceTilde (CHR ''1'') (CHR ''/'') path)"

text \<open>The key of one step: unescaped only when it contains a tilde.\<close>

definition stepKey :: "string \<Rightarrow> string" where
  "stepKey raw = (if CHR ''~'' \<in> set raw then unescapePathComponent raw else raw)"

text \<open>
  The prototype ban: \<open>key == '__proto__' || (key == 'prototype' && keys[t-1] == 'constructor')\<close>.
\<close>

definition banned :: "string \<Rightarrow> string \<Rightarrow> bool" where
  "banned prev key \<longleftrightarrow> key = ''__proto__'' \<or> (key = ''prototype'' \<and> prev = ''constructor'')"

text \<open>\<open>isInteger\<close>: every character is a decimal digit (so the empty string passes).\<close>

definition isDigit :: "char \<Rightarrow> bool" where
  "isDigit c \<longleftrightarrow> 48 \<le> (of_char c :: nat) \<and> (of_char c :: nat) \<le> 57"

definition isInteger :: "string \<Rightarrow> bool" where
  "isInteger str = list_all isDigit str"

text \<open>The number a digit string denotes; the empty string denotes 0, as \<open>~~''\<close> does.\<close>

definition digitsValue :: "string \<Rightarrow> nat" where
  "digitsValue str = foldl (\<lambda>n c. 10 * n + ((of_char c :: nat) - 48)) 0 str"

text \<open>
  The key of a step into an array: \<open>-\<close> is the array's length, a digit string is
  \<open>~~key\<close>. \<open>~~\<close> wraps at 32 bits, and below \<open>2^31\<close> it is the number itself. \<open>None\<close>
  is a key that does not name an element: a digit string from \<open>2^31\<close> on, or any other
  text (a named property of the array object).
\<close>

definition arrayIndex :: "json list \<Rightarrow> string \<Rightarrow> nat option" where
  "arrayIndex arr key =
     (if key = ''-'' then Some (length arr)
      else if isInteger key \<and> int (digitsValue key) < 2 ^ 31 then Some (digitsValue key)
      else None)"

text \<open>The members every object inherits from \<open>Object.prototype\<close>.\<close>

definition inheritedNames :: "string list" where
  "inheritedNames =
     [''constructor'', ''__defineGetter__'', ''__defineSetter__'', ''hasOwnProperty'',
      ''__lookupGetter__'', ''__lookupSetter__'', ''isPrototypeOf'',
      ''propertyIsEnumerable'', ''toString'', ''valueOf'', ''__proto__'',
      ''toLocaleString'']"

text \<open>
  \<open>obj[key]\<close>, read. An absent member of an object or an index past the end of an array
  reads as \<open>undefined\<close>; a member of \<open>null\<close> or \<open>undefined\<close> throws. Three reads leave
  JSON and are \<open>OutsideJson\<close>: an inherited member that the object does not own (a
  function), a named property of an array, and a member of a string, number or boolean.
\<close>

fun getMember :: "json \<Rightarrow> string \<Rightarrow> error + json" where
  "getMember (JObj members) key =
     (case map_of members key of
        Some v \<Rightarrow> Inr v
      | None \<Rightarrow> if key \<in> set inheritedNames then Inl OutsideJson else Inr JUndefined)"
| "getMember (JArr arr) key =
     (case arrayIndex arr key of
        Some i \<Rightarrow> Inr (if i < length arr then arr ! i else JUndefined)
      | None \<Rightarrow> Inl OutsideJson)"
| "getMember JNull key = Inl TypeError"
| "getMember JUndefined key = Inl TypeError"
| "getMember v key = Inl OutsideJson"

text \<open>
  The container with the member at \<open>key\<close> exchanged for \<open>child\<close>. The package mutates
  the child in place and never writes it back; this is the rebuilding step of the
  value-level description, used only after \<open>getMember\<close> has read the child.
\<close>

fun setMember :: "json \<Rightarrow> string \<Rightarrow> json \<Rightarrow> json" where
  "setMember (JObj members) key child = JObj (AList.update key child members)"
| "setMember (JArr arr) key child =
     (case arrayIndex arr key of Some i \<Rightarrow> JArr (arr[i := child]) | None \<Rightarrow> JArr arr)"
| "setMember v key child = v"

subsection \<open>Deep equality and deep copy\<close>

text \<open>
  \<open>Object.keys\<close> lists the members whose names are array indices first, in numeric
  order, and then the other members in the order they were added.
\<close>

definition isArrayIndexName :: "string \<Rightarrow> bool" where
  "isArrayIndexName key \<longleftrightarrow>
     key \<noteq> [] \<and> isInteger key \<and> (key = ''0'' \<or> hd key \<noteq> CHR ''0'')
     \<and> int (digitsValue key) < 2 ^ 32 - 1"

definition objectEntries :: "(string \<times> json) list \<Rightarrow> (string \<times> json) list" where
  "objectEntries members =
     sort_key (\<lambda>(key, v). digitsValue key) (filter (\<lambda>(key, v). isArrayIndexName key) members)
     @ filter (\<lambda>(key, v). \<not> isArrayIndexName key) members"

lemma size_list_insort_key:
  "size_list f (insort_key k x xs) = Suc (f x + size_list f xs)"
  by (induction xs) auto

lemma size_list_sort_key: "size_list f (sort_key k xs) = size_list f xs"
  by (induction xs) (auto simp: size_list_insort_key)

lemma size_list_filter_split:
  "size_list f (filter P xs) + size_list f (filter (\<lambda>x. \<not> P x) xs) = size_list f xs"
  by (induction xs) auto

lemma size_list_objectEntries: "size_list f (objectEntries members) = size_list f members"
  unfolding objectEntries_def
  using size_list_filter_split [of f "\<lambda>(key, v). isArrayIndexName key" members]
  by (simp add: size_list_sort_key size_list_append case_prod_unfold)

lemma size_list_rev: "size_list f (rev xs) = size_list f xs"
  by (induction xs) (auto simp: size_list_append)

text \<open>
  \<open>_areEquals(a, b)\<close>, in the package:
  \<^verbatim>\<open>
  if (a === b) return true;
  if (a && b && typeof a == 'object' && typeof b == 'object') {
    if (arrA && arrB) {
      length = a.length;
      if (length != b.length) return false;
      for (i = length; i-- !== 0;) if (!_areEquals(a[i], b[i])) return false;
      return true;
    }
    if (arrA != arrB) return false;
    var keys = Object.keys(a);
    length = keys.length;
    if (length !== Object.keys(b).length) return false;
    for (i = length; i-- !== 0;) if (!b.hasOwnProperty(keys[i])) return false;
    for (i = length; i-- !== 0;) { key = keys[i]; if (!_areEquals(a[key], b[key])) return false; }
    return true;
  }
  return a !== a && b !== b;
  \<close>
  Two values of the model are never the same object (\<open>===\<close> holds between equal
  primitives only). Elements and members are compared from the last to the first, and
  the first unequal pair ends the comparison. \<open>b.hasOwnProperty\<close> is the member of that
  name when \<open>b\<close> owns one, and calling a JSON value throws a \<open>TypeError\<close>.
\<close>

function (sequential) areEquals :: "json \<Rightarrow> json \<Rightarrow> error + bool"
  and areEqualsItems :: "json list \<Rightarrow> json list \<Rightarrow> error + bool"
  and areEqualsMembers :: "(string \<times> json) list \<Rightarrow> (string \<times> json) list \<Rightarrow> error + bool" where
  "areEquals (JArr a) (JArr b) =
     (if length a \<noteq> length b then Inr False else areEqualsItems (rev a) (rev b))"
| "areEquals (JArr a) (JObj b) = Inr False"
| "areEquals (JObj a) (JArr b) = Inr False"
| "areEquals (JObj a) (JObj b) =
     (if length a \<noteq> length b then Inr False
      else if a = [] then Inr True
      else if map_of b ''hasOwnProperty'' \<noteq> None then Inl TypeError
      else if \<exists>key \<in> set (map fst a). map_of b key = None then Inr False
      else areEqualsMembers (rev (objectEntries a)) b)"
| "areEquals a b = Inr (a = b)"
| "areEqualsItems [] b = Inr True"
| "areEqualsItems (x # a) b =
     (case b of
        [] \<Rightarrow> Inr True
      | y # b' \<Rightarrow>
          (case areEquals x y of
             Inl e \<Rightarrow> Inl e
           | Inr equal \<Rightarrow> if equal then areEqualsItems a b' else Inr False))"
| "areEqualsMembers [] b = Inr True"
| "areEqualsMembers ((key, v) # a) b =
     (case map_of b key of
        None \<Rightarrow> Inr False
      | Some w \<Rightarrow>
          (case areEquals v w of
             Inl e \<Rightarrow> Inl e
           | Inr equal \<Rightarrow> if equal then areEqualsMembers a b else Inr False))"
  by pat_completeness auto
termination
  by (relation "measure (\<lambda>x. case x of
          Inl (a, b) \<Rightarrow> size a
        | Inr (Inl (a, b)) \<Rightarrow> size_list size a
        | Inr (Inr (a, b)) \<Rightarrow> size_list (size_prod (\<lambda>x. 0) size) a)")
     (auto simp: size_list_rev size_list_objectEntries)

text \<open>What a test operation makes of a comparison: \<open>test === false\<close> throws.\<close>

definition testOutcome :: "error + bool \<Rightarrow> json \<Rightarrow> error + json \<times> json" where
  "testOutcome compared obj =
     (case compared of
        Inl e \<Rightarrow> Inl e
      | Inr equal \<Rightarrow> if equal then Inr (obj, JUndefined) else Inl TestOperationFailed)"

text \<open>
  \<open>_deepClone\<close>: \<open>undefined\<close> becomes \<open>null\<close>, a primitive is itself, and an object or
  array goes through \<open>JSON.parse(JSON.stringify(obj))\<close>, which turns an \<open>undefined\<close>
  array element into \<open>null\<close> and drops an object member whose value is \<open>undefined\<close>.
\<close>

fun deepClone :: "json \<Rightarrow> json" where
  "deepClone JUndefined = JNull"
| "deepClone (JArr arr) = JArr (map deepClone arr)"
| "deepClone (JObj members) =
     JObj (concat (map (\<lambda>(key, v). if v = JUndefined then [] else [(key, deepClone v)])
                       members))"
| "deepClone v = v"

subsection \<open>The operations on one container\<close>

text \<open>
  \<open>objOps\<close> and \<open>arrOps\<close>: what an operation does to the container \<open>obj\<close> the pointer
  ends in, under its last key. The result is the container afterwards and the value the
  operation hands back (\<open>removed\<close> of a remove, \<open>value\<close> of a \<open>_get\<close>). A failed test is
  the \<open>TEST_OPERATION_FAILED\<close> that \<open>applyOperation\<close> throws on \<open>test === false\<close>. In
  the package:
  \<^verbatim>\<open>
  add:     obj[key] = this.value
  remove:  var removed = obj[key]; delete obj[key]
  replace: var removed = obj[key]; obj[key] = this.value
  test:    test: _areEquals(obj[key], this.value)
  _get:    this.value = obj[key]
  \<close>
  None of them asks whether \<open>key\<close> is there: a remove of an absent member deletes
  nothing, and a replace of an absent member creates it. (The \<open>removed\<close> of a remove is
  read with \<open>getMember\<close>, so a remove under an inherited name that the object does not
  own is \<open>OutsideJson\<close> here.)
\<close>

fun objOps :: "JsonPatchOperation \<Rightarrow> (string \<times> json) list \<Rightarrow> string \<Rightarrow> error + json \<times> json" where
  "objOps (AddOperation path v) obj key = Inr (JObj (AList.update key v obj), JUndefined)"
| "objOps (RemoveOperation path) obj key =
     (case getMember (JObj obj) key of
        Inl e \<Rightarrow> Inl e
      | Inr removed \<Rightarrow> Inr (JObj (AList.delete key obj), removed))"
| "objOps (ReplaceOperation path v) obj key = Inr (JObj (AList.update key v obj), JUndefined)"
| "objOps (TestOperation path v) obj key =
     (case getMember (JObj obj) key of
        Inl e \<Rightarrow> Inl e
      | Inr found \<Rightarrow> testOutcome (areEquals found v) (JObj obj))"
| "objOps (GetOperation path v) obj key =
     (case getMember (JObj obj) key of
        Inl e \<Rightarrow> Inl e
      | Inr found \<Rightarrow> Inr (JObj obj, found))"
| "objOps (MoveOperation path src) obj key = Inr (JObj obj, JUndefined)"
| "objOps (CopyOperation path src) obj key = Inr (JObj obj, JUndefined)"

text \<open>
  On an array, add is \<open>arr.splice(i, 0, this.value)\<close>, which puts the value before the
  element at \<open>i\<close> (at the end when \<open>i\<close> is past it); remove is \<open>arr.splice(i, 1)\<close>, which
  takes nothing out past the end; replace is \<open>arr[i] = this.value\<close>, which extends a
  shorter array with holes; test and \<open>_get\<close> are those of \<open>objOps\<close>.
\<close>

definition arraySet :: "json list \<Rightarrow> nat \<Rightarrow> json \<Rightarrow> json list" where
  "arraySet arr i v =
     (if i < length arr then arr[i := v]
      else arr @ replicate (i - length arr) JUndefined @ [v])"

fun arrOps :: "JsonPatchOperation \<Rightarrow> json list \<Rightarrow> nat \<Rightarrow> error + json \<times> json" where
  "arrOps (AddOperation path v) arr i = Inr (JArr (take i arr @ v # drop i arr), JUndefined)"
| "arrOps (RemoveOperation path) arr i =
     Inr (JArr (take i arr @ drop (Suc i) arr), if i < length arr then arr ! i else JUndefined)"
| "arrOps (ReplaceOperation path v) arr i = Inr (JArr (arraySet arr i v), JUndefined)"
| "arrOps (TestOperation path v) arr i =
     testOutcome (areEquals (if i < length arr then arr ! i else JUndefined) v) (JArr arr)"
| "arrOps (GetOperation path v) arr i =
     Inr (JArr arr, if i < length arr then arr ! i else JUndefined)"
| "arrOps (MoveOperation path src) arr i = Inr (JArr arr, JUndefined)"
| "arrOps (CopyOperation path src) arr i = Inr (JArr arr, JUndefined)"

text \<open>
  The last step of the walk. Move and copy do not touch \<open>obj\<close> here: they act on the
  whole document (see \<open>applyOperation\<close>). Any other operation throws on \<open>null\<close> and
  \<open>undefined\<close>; on a string, number or boolean, and under a key of an array that names
  no element, it leaves JSON.
\<close>

fun lastStep :: "JsonPatchOperation \<Rightarrow> json \<Rightarrow> string \<Rightarrow> error + json \<times> json" where
  "lastStep (MoveOperation path src) obj key = Inr (obj, JUndefined)"
| "lastStep (CopyOperation path src) obj key = Inr (obj, JUndefined)"
| "lastStep operation (JArr arr) key =
     (case arrayIndex arr key of
        Some i \<Rightarrow> arrOps operation arr i
      | None \<Rightarrow> Inl OutsideJson)"
| "lastStep operation (JObj obj) key = objOps operation obj key"
| "lastStep operation JNull key = Inl TypeError"
| "lastStep operation JUndefined key = Inl TypeError"
| "lastStep operation v key = Inl OutsideJson"

subsection \<open>The walk down the pointer\<close>

text \<open>
  The \<open>while (true)\<close> loop of \<open>applyOperation\<close> over \<open>keys = path.split('/')\<close>, with
  \<open>t\<close> from 1: \<open>prev\<close> is \<open>keys[t - 1]\<close> and the list holds \<open>keys[t]\<close> onwards. One turn
  unescapes the key, throws on a banned key, turns the key into an index when \<open>obj\<close> is
  an array, applies \<open>arrOps\<close> or \<open>objOps\<close> when this was the last key
  (\<open>t >= len\<close>), and goes on with \<open>obj = obj[key]\<close> otherwise. With no key left at the
  start (a pointer without a slash) \<open>keys[1]\<close> is \<open>undefined\<close>: \<open>isInteger\<close> throws on it
  for an array, and for anything else it is the member named \<open>undefined\<close>.
\<close>

fun walk :: "JsonPatchOperation \<Rightarrow> string \<Rightarrow> json \<Rightarrow> string list \<Rightarrow> error + json \<times> json" where
  "walk operation prev obj [] =
     (case obj of JArr arr \<Rightarrow> Inl TypeError | _ \<Rightarrow> lastStep operation obj ''undefined'')"
| "walk operation prev obj [raw] =
     (if banned prev (stepKey raw) then Inl TypeError
      else lastStep operation obj (stepKey raw))"
| "walk operation prev obj (raw # next # rest) =
     (if banned prev (stepKey raw) then Inl TypeError
      else (case getMember obj (stepKey raw) of
              Inl e \<Rightarrow> Inl e
            | Inr child \<Rightarrow>
                (case walk operation raw child (next # rest) of
                   Inl e \<Rightarrow> Inl e
                 | Inr (child', out) \<Rightarrow> Inr (setMember obj (stepKey raw) child', out))))"

subsection \<open>applyOperation and getValueByPointer\<close>

text \<open>
  \<open>applyOperation\<close> without the two operations that call it again: the root
  operations (\<open>path === ''\<close>) of add, replace, test, remove and \<open>_get\<close>, and the walk
  otherwise. For move and copy this is the walk alone, which throws what the walk
  throws and changes nothing.
\<close>

fun rootOperation :: "JsonPatchOperation \<Rightarrow> json \<Rightarrow> error + json \<times> json" where
  "rootOperation (AddOperation path v) document = Inr (v, JUndefined)"
| "rootOperation (ReplaceOperation path v) document = Inr (v, document)"
| "rootOperation (TestOperation path v) document =
     testOutcome (areEquals document v) document"
| "rootOperation (RemoveOperation path) document = Inr (JNull, document)"
| "rootOperation (GetOperation path v) document = Inr (document, document)"
| "rootOperation (MoveOperation path src) document = Inr (document, JUndefined)"
| "rootOperation (CopyOperation path src) document = Inr (document, JUndefined)"

definition applyLocal :: "json \<Rightarrow> JsonPatchOperation \<Rightarrow> error + json \<times> json" where
  "applyLocal document operation =
     (if op_path operation = [] then rootOperation operation document
      else walk operation (hd (split_slash (op_path operation))) document
             (tl (split_slash (op_path operation))))"

text \<open>
  \<open>getValueByPointer\<close>: the document itself for the empty pointer, and otherwise the
  \<open>value\<close> that a \<open>_get\<close> operation brings back.
\<close>

definition getValueByPointer :: "json \<Rightarrow> string \<Rightarrow> error + json" where
  "getValueByPointer document pointer =
     (if pointer = [] then Inr document
      else (case applyLocal document (GetOperation pointer JUndefined) of
              Inl e \<Rightarrow> Inl e
            | Inr (d, found) \<Rightarrow> Inr found))"

text \<open>
  Move and copy, in the package:
  \<^verbatim>\<open>
  move: let removed = getValueByPointer(document, this.path)
        const originalValue = applyOperation(document, {op: "remove", path: this.from}).removed
        applyOperation(document, {op: "add", path: this.path, value: originalValue})
  copy: const valueToCopy = getValueByPointer(document, this.from)
        applyOperation(document, {op: "add", path: this.path, value: _deepClone(valueToCopy)})
  \<close>
  Both run at the last step of the walk to \<open>path\<close>, on the whole document. Moving the
  root (\<open>from === ''\<close>) below itself would make the document cyclic, which no JSON value
  is. To the root (\<open>path === ''\<close>), both return what \<open>from\<close> holds.
\<close>

fun applyOperation :: "json \<Rightarrow> JsonPatchOperation \<Rightarrow> error + json \<times> json" where
  "applyOperation document (MoveOperation path src) =
     (if path = [] then
        (case getValueByPointer document src of
           Inl e \<Rightarrow> Inl e
         | Inr v \<Rightarrow> Inr (v, document))
      else
        (case applyLocal document (MoveOperation path src) of
           Inl e \<Rightarrow> Inl e
         | Inr walked \<Rightarrow>
        (case getValueByPointer document path of
           Inl e \<Rightarrow> Inl e
         | Inr removed \<Rightarrow>
        if src = [] then Inl OutsideJson
        else
        (case applyLocal document (RemoveOperation src) of
           Inl e \<Rightarrow> Inl e
         | Inr (document1, originalValue) \<Rightarrow>
        (case applyLocal document1 (AddOperation path originalValue) of
           Inl e \<Rightarrow> Inl e
         | Inr (document2, out) \<Rightarrow> Inr (document2, removed))))))"
| "applyOperation document (CopyOperation path src) =
     (if path = [] then
        (case getValueByPointer document src of
           Inl e \<Rightarrow> Inl e
         | Inr v \<Rightarrow> Inr (v, JUndefined))
      else
        (case applyLocal document (CopyOperation path src) of
           Inl e \<Rightarrow> Inl e
         | Inr walked \<Rightarrow>
        (case getValueByPointer document src of
           Inl e \<Rightarrow> Inl e
         | Inr valueToCopy \<Rightarrow>
        (case applyLocal document (AddOperation path (deepClone valueToCopy)) of
           Inl e \<Rightarrow> Inl e
         | Inr (document1, out) \<Rightarrow> Inr (document1, JUndefined)))))"
| "applyOperation document operation = applyLocal document operation"

section \<open>References and the store\<close>

text \<open>
  The patcher receives a reference to the caller's document, and the library mutates
  the object behind the reference it is given. The store holds one document per
  reference; references below \<open>fresh\<close> are in use. Operation values are JSON values of
  their own: they share no object with a document in the store. (The library stores
  \<open>operation.value\<close> by reference; a list of operations whose values are objects of a
  document in the store is not expressed here.)
\<close>

record store =
  mem :: "nat \<Rightarrow> json"
  fresh :: nat

definition allocate :: "store \<Rightarrow> json \<Rightarrow> nat \<times> store" where
  "allocate s v = (fresh s, s\<lparr>mem := (mem s)(fresh s := v), fresh := Suc (fresh s)\<rparr>)"

text \<open>\<open>structuredClone\<close>: a deep copy, behind a reference of its own.\<close>

definition structuredClone :: "store \<Rightarrow> nat \<Rightarrow> nat \<times> store" where
  "structuredClone s object = allocate s (mem s object)"

text \<open>
  \<open>newDocument\<close> of a root operation (\<open>path === ''\<close>) is the document itself for test and
  \<open>_get\<close>, and for a move or copy from the root; otherwise it is another object.
\<close>

fun returnsDocument :: "JsonPatchOperation \<Rightarrow> bool" where
  "returnsDocument (TestOperation path v) = True"
| "returnsDocument (GetOperation path v) = True"
| "returnsDocument (MoveOperation path src) = (src = [])"
| "returnsDocument (CopyOperation path src) = (src = [])"
| "returnsDocument operation = False"

text \<open>
  \<open>applyOperation\<close> on a reference: an operation below the root mutates the document in
  place and returns the same reference. A call that throws leaves a working document
  nobody can reach any more; its cell is kept as it was.
\<close>

definition applyOperationRef :: "store \<Rightarrow> nat \<Rightarrow> JsonPatchOperation \<Rightarrow> (error + nat) \<times> store" where
  "applyOperationRef s document operation =
     (case applyOperation (mem s document) operation of
        Inl e \<Rightarrow> (Inl e, s)
      | Inr (newValue, out) \<Rightarrow>
          if op_path operation \<noteq> [] then
            (Inr document, s\<lparr>mem := (mem s)(document := newValue)\<rparr>)
          else if returnsDocument operation then (Inr document, s)
          else (case allocate s newValue of (r, s') \<Rightarrow> (Inr r, s')))"

text \<open>
  \<open>applyPatch(document, patch, false, true)\<close>: the operations in order, each on the
  \<open>newDocument\<close> of the one before; the result is the last \<open>newDocument\<close>.
\<close>

fun applyPatch :: "store \<Rightarrow> nat \<Rightarrow> JsonPatchOperation list \<Rightarrow> (error + nat) \<times> store" where
  "applyPatch s document [] = (Inr document, s)"
| "applyPatch s document (operation # rest) =
     (case applyOperationRef s document operation of
        (Inl e, s') \<Rightarrow> (Inl e, s')
      | (Inr newDocument, s') \<Rightarrow> applyPatch s' newDocument rest)"

section \<open>JsonPatcher\<close>

text \<open>
  \<open>patcher.ts\<close>, \<open>patch\<close>, lines 24 to 46: the loop over \<open>patches\<close> with the working
  reference \<open>target\<close>. \<open>isStringPatch\<close> is
  \<open>operation.op === Add && typeof operation.value === 'string'\<close>.
\<close>

fun isStringPatch :: "JsonPatchOperation \<Rightarrow> bool" where
  "isStringPatch (AddOperation path (JStr v)) = True"
| "isStringPatch operation = False"

fun op_value :: "JsonPatchOperation \<Rightarrow> json" where
  "op_value (AddOperation path v) = v"
| "op_value (ReplaceOperation path v) = v"
| "op_value (TestOperation path v) = v"
| "op_value (GetOperation path v) = v"
| "op_value operation = JUndefined"

text \<open>
  \<open>typeof targetValue === 'string' ? targetValue + operation.value : operation.value\<close>,
  for an \<open>operation.value\<close> that is a string.
\<close>

fun patchValue :: "json \<Rightarrow> json \<Rightarrow> json" where
  "patchValue (JStr targetValue) (JStr v) = JStr (targetValue @ v)"
| "patchValue targetValue v = v"

fun patchLoop :: "store \<Rightarrow> nat \<Rightarrow> JsonPatchOperation list \<Rightarrow> (error + nat) \<times> store" where
  "patchLoop s target [] = (Inr target, s)"
| "patchLoop s target (operation # rest) =
     (if isStringPatch operation then
        (case getValueByPointer (mem s target) (op_path operation) of
           Inl e \<Rightarrow> (Inl e, s)
         | Inr targetValue \<Rightarrow>
             (case applyPatch s target
                     [ReplaceOperation (op_path operation)
                        (patchValue targetValue (op_value operation))] of
                (Inl e, s') \<Rightarrow> (Inl e, s')
              | (Inr newDocument, s') \<Rightarrow> patchLoop s' newDocument rest))
      else
        (case applyPatch s target [operation] of
           (Inl e, s') \<Rightarrow> (Inl e, s')
         | (Inr newDocument, s') \<Rightarrow> patchLoop s' newDocument rest))"

text \<open>\<open>patch\<close>: the loop on \<open>structuredClone(object)\<close>.\<close>

definition patch :: "store \<Rightarrow> nat \<Rightarrow> JsonPatchOperation list \<Rightarrow> (error + nat) \<times> store" where
  "patch s object patches =
     (case structuredClone s object of (target, s') \<Rightarrow> patchLoop s' target patches)"

text \<open>
  \<open>safePatch\<close>: \<open>patch\<close> inside \<open>try\<close>, with a \<open>catch\<close> that turns whatever was thrown into
  the failure result. A JavaScript function returns or throws, so the result is again
  a sum; every error of \<open>patch\<close> is an \<open>Error\<close> object and is passed on as it is.
\<close>

definition safePatch ::
  "store \<Rightarrow> nat \<Rightarrow> JsonPatchOperation list \<Rightarrow> (error + nat PatchResult) \<times> store" where
  "safePatch s target patches =
     (case patch s target patches of
        (Inr data, s') \<Rightarrow> (Inr (Success data), s')
      | (Inl e, s') \<Rightarrow> (Inr (Failure e), s'))"

text \<open>The document a call returns, read from the store the call leaves.\<close>

fun returned :: "(error + nat) \<times> store \<Rightarrow> error + json" where
  "returned (Inl e, s) = Inl e"
| "returned (Inr r, s) = Inr (mem s r)"

fun returnedSafe :: "(error + nat PatchResult) \<times> store \<Rightarrow> error + json PatchResult" where
  "returnedSafe (Inl e, s) = Inl e"
| "returnedSafe (Inr (Success r), s) = Inr (Success (mem s r))"
| "returnedSafe (Inr (Failure e), s) = Inr (Failure e)"

text \<open>A store whose only document, behind reference 0, is \<open>d\<close>.\<close>

definition holding :: "json \<Rightarrow> store" where
  "holding d = \<lparr>mem = (\<lambda>r. JUndefined)(0 := d), fresh = 1\<rparr>"

section \<open>Notions used in the proofs\<close>

text \<open>
  One turn of the loop of \<open>patch\<close>, and the whole loop, as functions of the value of the
  working document alone. \<open>returned_patch\<close> below shows that \<open>patch\<close> returns a reference
  to exactly this value.
\<close>

definition patchStep :: "json \<Rightarrow> JsonPatchOperation \<Rightarrow> error + json" where
  "patchStep target operation =
     (if isStringPatch operation then
        (case getValueByPointer target (op_path operation) of
           Inl e \<Rightarrow> Inl e
         | Inr targetValue \<Rightarrow>
             map_sum id fst (applyOperation target
                (ReplaceOperation (op_path operation)
                   (patchValue targetValue (op_value operation)))))
      else map_sum id fst (applyOperation target operation))"

fun patchAll :: "json \<Rightarrow> JsonPatchOperation list \<Rightarrow> error + json" where
  "patchAll target [] = Inr target"
| "patchAll target (operation # rest) =
     (case patchStep target operation of
        Inl e \<Rightarrow> Inl e
      | Inr target' \<Rightarrow> patchAll target' rest)"

text \<open>
  A call leaves every reference below \<open>n\<close> as it was, takes no reference back, and
  returns (if it returns) a reference in use that is not below \<open>n\<close>.
\<close>

definition keeps :: "nat \<Rightarrow> store \<Rightarrow> (error + nat) \<times> store \<Rightarrow> bool" where
  "keeps n s res \<longleftrightarrow>
     (\<forall>a < n. mem (snd res) a = mem s a) \<and> fresh s \<le> fresh (snd res) \<and>
     (case fst res of Inl e \<Rightarrow> True | Inr r \<Rightarrow> n \<le> r \<and> r < fresh (snd res))"

text \<open>
  The container that the keys \<open>ks\<close> lead to from \<open>obj\<close>, with the checks the walk makes
  on the way, and the document with that container exchanged for \<open>c\<close>.
\<close>

fun reach :: "string \<Rightarrow> json \<Rightarrow> string list \<Rightarrow> error + json" where
  "reach prev obj [] = Inr obj"
| "reach prev obj (raw # rest) =
     (if banned prev (stepKey raw) then Inl TypeError
      else (case getMember obj (stepKey raw) of
              Inl e \<Rightarrow> Inl e
            | Inr child \<Rightarrow> reach raw child rest))"

fun plug :: "json \<Rightarrow> string list \<Rightarrow> json \<Rightarrow> json" where
  "plug obj [] c = c"
| "plug obj (raw # rest) c =
     (case getMember obj (stepKey raw) of
        Inl e \<Rightarrow> obj
      | Inr child \<Rightarrow> setMember obj (stepKey raw) (plug child rest c))"




section \<open>The value a call returns\<close>

lemma root_returns_document:
  "op_path operation = [] \<Longrightarrow> returnsDocument operation \<Longrightarrow>
   applyOperation d operation = Inr (newValue, out) \<Longrightarrow> newValue = d"
  by (cases operation)
     (auto simp: applyLocal_def getValueByPointer_def testOutcome_def split: if_splits sum.splits)

lemma returned_applyOperationRef:
  "returned (applyOperationRef s d operation) = map_sum id fst (applyOperation (mem s d) operation)"
  by (auto simp: applyOperationRef_def allocate_def split: sum.splits prod.splits
           dest: root_returns_document)

lemma applyPatch_single:
  "applyPatch s d [operation] = applyOperationRef s d operation"
  by (cases "applyOperationRef s d operation") (auto split: sum.splits)

lemma applyOperationRef_Inl:
  "applyOperation (mem s d) operation = Inl e \<Longrightarrow> applyOperationRef s d operation = (Inl e, s)"
  by (simp add: applyOperationRef_def)

lemma applyOperationRef_Inr:
  "applyOperation (mem s d) operation = Inr (v, out) \<Longrightarrow>
   \<exists>r s'. applyOperationRef s d operation = (Inr r, s') \<and> mem s' r = v"
  by (auto simp: applyOperationRef_def allocate_def dest: root_returns_document)

lemma returned_step:
  "returned (case applyOperationRef s target operation of
               (Inl e, s') \<Rightarrow> (Inl e, s')
             | (Inr newDocument, s') \<Rightarrow> patchLoop s' newDocument rest)
   = (case map_sum id fst (applyOperation (mem s target) operation) of
        Inl e \<Rightarrow> Inl e
      | Inr target' \<Rightarrow> patchAll target' rest)"
  if IH: "\<And>s target. returned (patchLoop s target rest) = patchAll (mem s target) rest"
proof (cases "applyOperation (mem s target) operation")
  case (Inl e)
  then show ?thesis by (simp add: applyOperationRef_Inl)
next
  case (Inr p)
  obtain v out where p: "p = (v, out)" by (cases p)
  from applyOperationRef_Inr [of s target operation v out] Inr p
  obtain r s' where "applyOperationRef s target operation = (Inr r, s')" "mem s' r = v"
    by auto
  with Inr p IH [of s' r] show ?thesis by simp
qed

lemma returned_patchLoop:
  "returned (patchLoop s target patches) = patchAll (mem s target) patches"
proof (induction patches arbitrary: s target)
  case Nil
  show ?case by simp
next
  case (Cons operation rest)
  note step = returned_step [of rest, OF Cons.IH]
  show ?case
  proof (cases "isStringPatch operation")
    case True
    show ?thesis
    proof (cases "getValueByPointer (mem s target) (op_path operation)")
      case (Inl e)
      with True show ?thesis by (simp add: patchStep_def)
    next
      case (Inr targetValue)
      with True show ?thesis
        by (simp add: patchStep_def applyPatch_single step del: returned.simps applyPatch.simps applyOperation.simps)
    qed
  next
    case False
    then show ?thesis
      by (simp add: patchStep_def applyPatch_single step del: returned.simps applyPatch.simps applyOperation.simps)
  qed
qed

lemma returned_patch: "returned (patch s object patches) = patchAll (mem s object) patches"
  by (simp add: patch_def structuredClone_def allocate_def returned_patchLoop)

section \<open>What a call leaves alone\<close>

lemma keeps_applyOperationRef:
  "n \<le> d \<Longrightarrow> d < fresh s \<Longrightarrow> keeps n s (applyOperationRef s d operation)"
  by (auto simp: keeps_def applyOperationRef_def allocate_def split: sum.splits prod.splits)

lemma keeps_trans:
  "keeps n s (Inr r, s') \<Longrightarrow> keeps n s' res \<Longrightarrow> keeps n s res"
  by (auto simp: keeps_def split: sum.splits)

lemma keeps_patchLoop:
  "n \<le> target \<Longrightarrow> target < fresh s \<Longrightarrow> keeps n s (patchLoop s target patches)"
proof (induction patches arbitrary: s target)
  case Nil
  then show ?case by (simp add: keeps_def)
next
  case (Cons operation rest)
  have step: "keeps n s (patchLoop s' r rest)"
    if "applyOperationRef s target op' = (Inr r, s')" for op' r s'
  proof -
    have k: "keeps n s (Inr r, s')"
      using keeps_applyOperationRef [OF Cons.prems, of op'] that by simp
    then have "n \<le> r" "r < fresh s'" by (simp_all add: keeps_def)
    then have "keeps n s' (patchLoop s' r rest)" by (rule Cons.IH)
    with k show ?thesis by (rule keeps_trans)
  qed
  have fail: "keeps n s (Inl e, s')"
    if "applyOperationRef s target op' = (Inl e, s')" for op' e s'
    using keeps_applyOperationRef [OF Cons.prems, of op'] that by (simp add: keeps_def)
  show ?case
    by (auto simp: applyPatch_single keeps_def [of n s "(Inl _, s)"] step fail
             split: sum.splits prod.splits)
qed

lemma keeps_patch:
  "object < fresh s \<Longrightarrow> keeps (fresh s) s (patch s object patches)"
proof -
  let ?s' = "snd (structuredClone s object)"
  have "keeps (fresh s) ?s' (patchLoop ?s' (fresh s) patches)"
    by (rule keeps_patchLoop) (simp_all add: structuredClone_def allocate_def)
  then show ?thesis
    by (auto simp: keeps_def patch_def structuredClone_def allocate_def split: sum.splits)
qed

section \<open>The walk, taken apart\<close>

lemma walk_snoc:
  "walk operation prev obj (ks @ [seg]) =
     (case reach prev obj ks of
        Inl e \<Rightarrow> Inl e
      | Inr c \<Rightarrow>
          if banned (last (prev # ks)) (stepKey seg) then Inl TypeError
          else (case lastStep operation c (stepKey seg) of
                  Inl e \<Rightarrow> Inl e
                | Inr (c', out) \<Rightarrow> Inr (plug obj ks c', out)))"
proof (induction ks arbitrary: prev obj)
  case Nil
  show ?case by (simp split: sum.splits prod.splits)
next
  case (Cons raw ks)
  obtain n r where eq: "n # r = ks @ [seg]" by (cases ks) auto
  have "walk operation prev obj (raw # n # r) =
     (if banned prev (stepKey raw) then Inl TypeError
      else (case getMember obj (stepKey raw) of
              Inl e \<Rightarrow> Inl e
            | Inr child \<Rightarrow>
                (case walk operation raw child (n # r) of
                   Inl e \<Rightarrow> Inl e
                 | Inr (child', out) \<Rightarrow> Inr (setMember obj (stepKey raw) child', out))))"
    by simp
  then have "walk operation prev obj (raw # ks @ [seg]) =
     (if banned prev (stepKey raw) then Inl TypeError
      else (case getMember obj (stepKey raw) of
              Inl e \<Rightarrow> Inl e
            | Inr child \<Rightarrow>
                (case walk operation raw child (ks @ [seg]) of
                   Inl e \<Rightarrow> Inl e
                 | Inr (child', out) \<Rightarrow> Inr (setMember obj (stepKey raw) child', out))))"
    unfolding eq .
  then show ?case
    by (simp add: Cons.IH split: sum.splits prod.splits)
qed

lemma reach_snoc:
  "reach prev obj (ks @ [seg]) =
     (case reach prev obj ks of
        Inl e \<Rightarrow> Inl e
      | Inr c \<Rightarrow>
          if banned (last (prev # ks)) (stepKey seg) then Inl TypeError
          else getMember c (stepKey seg))"
  by (induction ks arbitrary: prev obj) (auto split: sum.splits)

lemma getMember_setMember:
  "getMember obj key = Inr child \<Longrightarrow> child \<noteq> JUndefined \<Longrightarrow>
   getMember (setMember obj key c) key = Inr c"
  by (cases obj) (auto simp: update_conv' arrayIndex_def split: option.splits if_splits)

lemma setMember_same:
  "getMember obj key = Inr child \<Longrightarrow> child \<noteq> JUndefined \<Longrightarrow> setMember obj key child = obj"
  by (cases obj) (auto simp: update_triv split: option.splits if_splits)


lemma reach_undefined: "reach prev JUndefined ks = Inr c \<Longrightarrow> c = JUndefined"
  by (cases ks) (auto split: if_splits)

lemma reach_plug:
  "reach prev obj ks = Inr c \<Longrightarrow> c \<noteq> JUndefined \<Longrightarrow> reach prev (plug obj ks c') ks = Inr c'"
proof (induction ks arbitrary: prev obj)
  case Nil
  then show ?case by simp
next
  case (Cons raw ks)
  from Cons.prems obtain child where nb: "\<not> banned prev (stepKey raw)"
    and g: "getMember obj (stepKey raw) = Inr child" and r: "reach raw child ks = Inr c"
    by (auto split: if_splits sum.splits)
  from r Cons.prems(2) have "child \<noteq> JUndefined" using reach_undefined by blast
  with g have "getMember (setMember obj (stepKey raw) (plug child ks c')) (stepKey raw)
               = Inr (plug child ks c')"
    by (rule getMember_setMember)
  with nb g Cons.IH [OF r Cons.prems(2)] show ?case by simp
qed

lemma plug_same:
  "reach prev obj ks = Inr c \<Longrightarrow> c \<noteq> JUndefined \<Longrightarrow> plug obj ks c = obj"
proof (induction ks arbitrary: prev obj)
  case Nil
  then show ?case by simp
next
  case (Cons raw ks)
  from Cons.prems obtain child where g: "getMember obj (stepKey raw) = Inr child"
    and r: "reach raw child ks = Inr c"
    by (auto split: if_splits sum.splits)
  from r Cons.prems(2) have "child \<noteq> JUndefined" using reach_undefined by blast
  with g Cons.IH [OF r Cons.prems(2)] show ?case by (simp add: setMember_same)
qed


section \<open>Pointers and single operations\<close>

lemma split_slash_nonempty: "split_slash p \<noteq> []"
  by (induction p) (auto split: list.splits)

lemma split_slash_plain: "CHR ''/'' \<notin> set seg \<Longrightarrow> split_slash seg = [seg]"
  by (induction seg) auto

lemma split_slash_snoc:
  "CHR ''/'' \<notin> set seg \<Longrightarrow> split_slash (pp @ CHR ''/'' # seg) = split_slash pp @ [seg]"
proof (induction pp)
  case Nil
  then show ?case by (simp add: split_slash_plain)
next
  case (Cons c pp)
  then show ?case
    using split_slash_nonempty [of pp] by (cases "split_slash pp") auto
qed

lemma lastStep_get:
  "lastStep (GetOperation p u) c key =
     (case getMember c key of Inl e \<Rightarrow> Inl e | Inr x \<Rightarrow> Inr (c, x))"
  by (cases c) (auto split: option.splits sum.splits)

lemma lastStep_test:
  "lastStep (TestOperation p v) c key =
     (case getMember c key of
        Inl e \<Rightarrow> Inl e
      | Inr x \<Rightarrow> testOutcome (areEquals x v) c)"
  by (cases c) (auto split: option.splits sum.splits)


lemma getValueByPointer_walk:
  "p \<noteq> [] \<Longrightarrow> getValueByPointer d p =
     (case walk (GetOperation p JUndefined) (hd (split_slash p)) d (tl (split_slash p)) of
        Inl e \<Rightarrow> Inl e | Inr (d', x) \<Rightarrow> Inr x)"
  by (simp add: getValueByPointer_def applyLocal_def)


lemma walk_get_unchanged:
  "walk (GetOperation p u) prev obj ks = Inr (obj', x) \<Longrightarrow> obj' = obj"
proof (cases ks rule: rev_cases)
  case Nil
  then show "walk (GetOperation p u) prev obj ks = Inr (obj', x) \<Longrightarrow> obj' = obj"
    by (auto simp: lastStep_get split: json.splits sum.splits)
next
  case (snoc ks' seg)
  assume "walk (GetOperation p u) prev obj ks = Inr (obj', x)"
  with snoc obtain c where r: "reach prev obj ks' = Inr c"
    and g: "getMember c (stepKey seg) = Inr x" and o: "obj' = plug obj ks' c"
    by (auto simp: walk_snoc lastStep_get split: sum.splits if_splits)
  from g have "c \<noteq> JUndefined" by auto
  with r o show "obj' = obj" by (simp add: plug_same)
qed

lemma walk_get_value:
  "walk (GetOperation p u) prev obj ks = walk (GetOperation p' u') prev obj ks"
  by (cases ks rule: rev_cases)
     (auto simp: walk_snoc lastStep_get split: sum.splits json.splits)

lemma walk_test:
  "walk (TestOperation p v) prev obj ks =
     (case walk (GetOperation p u) prev obj ks of
        Inl e \<Rightarrow> Inl e
      | Inr (obj', x) \<Rightarrow> testOutcome (areEquals x v) obj)"
proof (cases ks rule: rev_cases)
  case Nil
  then show ?thesis
    by (auto simp: lastStep_get lastStep_test split: json.splits sum.splits)
next
  case (snoc ks' seg)
  show ?thesis
  proof (cases "reach prev obj ks'")
    case (Inl e)
    with snoc show ?thesis by (simp add: walk_snoc)
  next
    case (Inr c)
    show ?thesis
    proof (cases "getMember c (stepKey seg)")
      case (Inl e)
      with Inr snoc show ?thesis by (simp add: walk_snoc lastStep_get lastStep_test)
    next
      case g: (Inr x)
      then have "c \<noteq> JUndefined" by auto
      with Inr have "plug obj ks' c = obj" by (simp add: plug_same)
      with Inr g snoc show ?thesis
        by (auto simp: walk_snoc lastStep_get lastStep_test testOutcome_def split: sum.splits)
    qed
  qed
qed



lemma snd_safePatch: "snd (safePatch s object patches) = snd (patch s object patches)"
  by (simp add: safePatch_def split: prod.splits sum.splits)

lemma fst_safePatch:
  "fst (safePatch s object patches) =
     Inr (case fst (patch s object patches) of Inl e \<Rightarrow> Failure e | Inr r \<Rightarrow> Success r)"
  by (simp add: safePatch_def split: prod.splits sum.splits)

lemma returnedSafe_safePatch:
  "returnedSafe (safePatch s object patches) =
     Inr (case patchAll (mem s object) patches of Inl e \<Rightarrow> Failure e | Inr d \<Rightarrow> Success d)"
  using returned_patch [of s object patches]
  by (cases "patch s object patches") (auto simp: safePatch_def split: sum.splits)

lemma getMember_error: "getMember c key = Inl e \<Longrightarrow> e \<noteq> TestOperationFailed"
  by (cases c) (auto split: option.splits if_splits)

lemma reach_error: "reach prev obj ks = Inl e \<Longrightarrow> e \<noteq> TestOperationFailed"
  by (induction ks arbitrary: prev obj) (auto split: if_splits sum.splits dest: getMember_error)

lemma walk_get_error:
  "walk (GetOperation p u) prev obj ks = Inl e \<Longrightarrow> e \<noteq> TestOperationFailed"
proof (cases ks rule: rev_cases)
  case Nil
  assume "walk (GetOperation p u) prev obj ks = Inl e"
  with Nil show ?thesis
    by (cases obj) (auto split: sum.splits option.splits if_splits)
next
  case (snoc ks' seg)
  assume "walk (GetOperation p u) prev obj ks = Inl e"
  with snoc show ?thesis
    by (auto simp: walk_snoc lastStep_get split: sum.splits if_splits
             dest: getMember_error reach_error)
qed

lemma getValueByPointer_error:
  "getValueByPointer d p = Inl e \<Longrightarrow> e \<noteq> TestOperationFailed"
  by (auto simp: getValueByPointer_def applyLocal_def split: if_splits sum.splits
           dest: walk_get_error)

lemma test_by_pointer:
  "applyOperation d (TestOperation p v) =
     (case getValueByPointer d p of
        Inl e \<Rightarrow> Inl e
      | Inr x \<Rightarrow> testOutcome (areEquals x v) d)"
proof (cases "p = []")
  case True
  then show ?thesis by (simp add: applyLocal_def getValueByPointer_def)
next
  case False
  then show ?thesis
    by (simp add: applyLocal_def getValueByPointer_walk walk_test [where u = JUndefined]
             split: sum.splits prod.splits)
qed

lemma get_by_pointer:
  "getValueByPointer d p = Inr x \<Longrightarrow> map_sum id fst (applyOperation d (GetOperation p u)) = Inr d"
proof (cases "p = []")
  case True
  then show ?thesis by (simp add: applyLocal_def)
next
  case False
  assume "getValueByPointer d p = Inr x"
  with False obtain d' where
    "walk (GetOperation p JUndefined) (hd (split_slash p)) d (tl (split_slash p)) = Inr (d', x)"
    by (auto simp: getValueByPointer_walk split: sum.splits)
  then have "walk (GetOperation p u) (hd (split_slash p)) d (tl (split_slash p)) = Inr (d, x)"
    using walk_get_unchanged walk_get_value by metis
  with False show ?thesis by (simp add: applyLocal_def)
qed

section \<open>The loop on one operation\<close>

lemmas run_defs = holding_def patchStep_def applyLocal_def getValueByPointer_def stepKey_def
  banned_def arrayIndex_def isInteger_def isDigit_def digitsValue_def arraySet_def
  unescapePathComponent_def inheritedNames_def

lemma patchAll_single: "patchAll d [operation] = patchStep d operation"
  by (simp split: sum.splits)

lemma patchStep_test:
  "patchStep d (TestOperation p v) =
     (case getValueByPointer d p of
        Inl e \<Rightarrow> Inl e
      | Inr x \<Rightarrow> map_sum id fst (testOutcome (areEquals x v) d))"
  unfolding patchStep_def test_by_pointer by (simp split: sum.splits)

lemma safePatch_test:
  "returnedSafe (safePatch s object [TestOperation p v]) =
     Inr (case getValueByPointer (mem s object) p of
            Inl e \<Rightarrow> Failure e
          | Inr x \<Rightarrow>
              (case areEquals x v of
                 Inl e \<Rightarrow> Failure e
               | Inr equal \<Rightarrow> if equal then Success (mem s object)
                             else Failure TestOperationFailed))"
  unfolding returnedSafe_safePatch patchAll_single patchStep_test
  by (simp add: testOutcome_def split: sum.splits)

lemma patchValue_other: "\<forall>t. x \<noteq> JStr t \<Longrightarrow> patchValue x w = w"
  by (cases x) auto

lemma patchStep_string_add:
  "patchStep d (AddOperation p (JStr v)) =
     (case getValueByPointer d p of
        Inl e \<Rightarrow> Inl e
      | Inr x \<Rightarrow> map_sum id fst (applyOperation d (ReplaceOperation p (patchValue x (JStr v)))))"
  by (simp add: patchStep_def cong: sum.case_cong)




section \<open>A pointer and the pointers below it\<close>

lemma walk_get_reach:
  "ks \<noteq> [] \<Longrightarrow>
   (case walk (GetOperation p u) prev obj ks of Inl e \<Rightarrow> Inl e | Inr (o1, x) \<Rightarrow> Inr x)
     = reach prev obj ks"
  by (cases ks rule: rev_cases)
     (auto simp: walk_snoc reach_snoc lastStep_get split: sum.splits)

lemma pointer_keys:
  "pp = [] \<or> hd pp = CHR ''/'' \<Longrightarrow> pp \<noteq> [] \<Longrightarrow> tl (split_slash pp) \<noteq> []"
  using split_slash_nonempty by (cases pp) auto

lemma get_reach:
  assumes "pp = [] \<or> hd pp = CHR ''/''"
  shows "getValueByPointer d pp = reach (hd (split_slash pp)) d (tl (split_slash pp))"
proof (cases "pp = []")
  case True
  then show ?thesis by (simp add: getValueByPointer_def)
next
  case False
  with assms have "tl (split_slash pp) \<noteq> []" by (rule pointer_keys)
  from walk_get_reach [OF this] False show ?thesis
    by (simp add: getValueByPointer_walk)
qed

lemma applyLocal_child:
  assumes pf: "pp = [] \<or> hd pp = CHR ''/''" and ns: "CHR ''/'' \<notin> set seg"
    and path: "op_path operation = pp @ CHR ''/'' # seg"
  shows "applyLocal d operation =
     (case getValueByPointer d pp of
        Inl e \<Rightarrow> Inl e
      | Inr c \<Rightarrow>
          if banned (last (split_slash pp)) (stepKey seg) then Inl TypeError
          else (case lastStep operation c (stepKey seg) of
                  Inl e \<Rightarrow> Inl e
                | Inr (c', out) \<Rightarrow> Inr (plug d (tl (split_slash pp)) c', out)))"
proof -
  have sp: "split_slash (pp @ CHR ''/'' # seg) = split_slash pp @ [seg]"
    using ns by (rule split_slash_snoc)
  have ne: "split_slash pp \<noteq> []" by (rule split_slash_nonempty)
  then have hd: "hd (split_slash pp @ [seg]) = hd (split_slash pp)"
    and tl: "tl (split_slash pp @ [seg]) = tl (split_slash pp) @ [seg]"
    and lst: "last (hd (split_slash pp) # tl (split_slash pp)) = last (split_slash pp)"
    by simp_all
  show ?thesis
    unfolding applyLocal_def path sp hd tl walk_snoc lst get_reach [OF pf]
    by simp
qed

lemma get_child:
  assumes "pp = [] \<or> hd pp = CHR ''/''" and "CHR ''/'' \<notin> set seg"
  shows "getValueByPointer d (pp @ CHR ''/'' # seg) =
     (case getValueByPointer d pp of
        Inl e \<Rightarrow> Inl e
      | Inr c \<Rightarrow>
          if banned (last (split_slash pp)) (stepKey seg) then Inl TypeError
          else getMember c (stepKey seg))"
proof -
  have "op_path (GetOperation (pp @ CHR ''/'' # seg) JUndefined) = pp @ CHR ''/'' # seg"
    by simp
  from applyLocal_child [OF assms this, of d] show ?thesis
    by (simp add: getValueByPointer_def lastStep_get split: sum.splits)
qed

lemma get_plug:
  assumes "pp = [] \<or> hd pp = CHR ''/''" and "getValueByPointer d pp = Inr c"
    and "c \<noteq> JUndefined"
  shows "getValueByPointer (plug d (tl (split_slash pp)) c') pp = Inr c'"
  using assms reach_plug by (simp add: get_reach)


lemma applyLocal_at:
  assumes pf: "pp = [] \<or> hd pp = CHR ''/''" and ns: "CHR ''/'' \<notin> set seg"
    and path: "op_path operation = pp @ CHR ''/'' # seg"
    and g: "getValueByPointer d pp = Inr c" and c: "c \<noteq> JUndefined"
    and nb: "\<not> banned (last (split_slash pp)) (stepKey seg)"
    and l: "lastStep operation c (stepKey seg) = Inr (c', out)"
  shows "\<exists>d'. applyLocal d operation = Inr (d', out) \<and> getValueByPointer d' pp = Inr c'
           \<and> d' = plug d (tl (split_slash pp)) c'"
  using applyLocal_child [OF pf ns path, of d] g nb l get_plug [OF pf g c, of c']
  by simp

section \<open>Elements of arrays, members of objects\<close>

lemma isInteger_chars:
  "isInteger seg \<Longrightarrow> CHR ''/'' \<notin> set seg \<and> CHR ''~'' \<notin> set seg \<and> CHR ''-'' \<notin> set seg
     \<and> CHR ''_'' \<notin> set seg \<and> CHR ''p'' \<notin> set seg"
  by (auto simp: isInteger_def list_all_iff isDigit_def)

lemma isInteger_stepKey: "isInteger seg \<Longrightarrow> stepKey seg = seg"
  using isInteger_chars [of seg] by (simp add: stepKey_def)

lemma isInteger_not_banned: "isInteger seg \<Longrightarrow> \<not> banned prev seg"
  using isInteger_chars [of seg] by (auto simp: banned_def)

lemma isInteger_arrayIndex:
  "isInteger seg \<Longrightarrow> digitsValue seg < 2 ^ 31 \<Longrightarrow> arrayIndex arr seg = Some (digitsValue seg)"
  using isInteger_chars [of seg] by (auto simp: arrayIndex_def)

lemma string_add_in_array:
  assumes pf: "pp = [] \<or> hd pp = CHR ''/''"
    and g: "getValueByPointer d pp = Inr (JArr arr)"
    and int: "isInteger seg" and i: "digitsValue seg = i" and small: "i < 2 ^ 31"
  shows "\<exists>d'. patchStep d (AddOperation (pp @ CHR ''/'' # seg) (JStr v)) = Inr d' \<and>
           getValueByPointer d' pp =
             Inr (JArr (arraySet arr i
                    (patchValue (if i < length arr then arr ! i else JUndefined) (JStr v))))"
proof -
  let ?path = "pp @ CHR ''/'' # seg"
  let ?x = "if i < length arr then arr ! i else JUndefined"
  from int have ns: "CHR ''/'' \<notin> set seg" and key: "stepKey seg = seg"
    and nb: "\<not> banned (last (split_slash pp)) (stepKey seg)"
    by (simp_all add: isInteger_chars isInteger_stepKey isInteger_not_banned)
  from int i small have ix: "arrayIndex arr seg = Some i"
    using isInteger_arrayIndex by blast
  have gx: "getValueByPointer d ?path = Inr ?x"
    using g nb ix by (simp add: get_child [OF pf ns] key)
  have l: "lastStep (ReplaceOperation ?path (patchValue ?x (JStr v))) (JArr arr) (stepKey seg)
             = Inr (JArr (arraySet arr i (patchValue ?x (JStr v))), JUndefined)"
    using ix by (simp add: key)
  have p: "op_path (ReplaceOperation ?path (patchValue ?x (JStr v))) = ?path" by simp
  from applyLocal_at [OF pf ns p g _ nb l] obtain d'
    where "applyLocal d (ReplaceOperation ?path (patchValue ?x (JStr v))) = Inr (d', JUndefined)"
      and "getValueByPointer d' pp = Inr (JArr (arraySet arr i (patchValue ?x (JStr v))))"
    by auto
  with gx show ?thesis
    by (simp add: patchStep_string_add)
qed

lemma other_add_in_array:
  assumes pf: "pp = [] \<or> hd pp = CHR ''/''"
    and g: "getValueByPointer d pp = Inr (JArr arr)"
    and int: "isInteger seg" and i: "digitsValue seg = i" and small: "i < 2 ^ 31"
    and w: "\<forall>t. w \<noteq> JStr t"
  shows "\<exists>d'. patchStep d (AddOperation (pp @ CHR ''/'' # seg) w) = Inr d' \<and>
           getValueByPointer d' pp = Inr (JArr (take i arr @ w # drop i arr))"
proof -
  let ?path = "pp @ CHR ''/'' # seg"
  from int have ns: "CHR ''/'' \<notin> set seg" and key: "stepKey seg = seg"
    and nb: "\<not> banned (last (split_slash pp)) (stepKey seg)"
    by (simp_all add: isInteger_chars isInteger_stepKey isInteger_not_banned)
  from int i small have ix: "arrayIndex arr seg = Some i"
    using isInteger_arrayIndex by blast
  have l: "lastStep (AddOperation ?path w) (JArr arr) (stepKey seg)
             = Inr (JArr (take i arr @ w # drop i arr), JUndefined)"
    using ix by (simp add: key)
  have p: "op_path (AddOperation ?path w) = ?path" by simp
  from applyLocal_at [OF pf ns p g _ nb l] obtain d'
    where a: "applyLocal d (AddOperation ?path w) = Inr (d', JUndefined)"
      and b: "getValueByPointer d' pp = Inr (JArr (take i arr @ w # drop i arr))"
    by auto
  from w have "\<not> isStringPatch (AddOperation ?path w)" by (cases w) auto
  with a b show ?thesis by (simp add: patchStep_def)
qed

text \<open>
  What an add at the index \<open>i\<close> of an array does, with \<open>seg\<close> the digits of \<open>i\<close>: an add
  of a string writes in place (the concatenation over a string element, the value
  itself over another element, and after the last element when \<open>i\<close> is the length); an
  add of another value inserts it before the element at \<open>i\<close>.
\<close>

lemma add_at_array_index:
  assumes "pp = [] \<or> hd pp = CHR ''/''"
    and "getValueByPointer (mem s object) pp = Inr (JArr arr)"
    and "isInteger seg" and "digitsValue seg = i" and "i < 2 ^ 31"
  shows
   "(\<forall>t. i < length arr \<and> arr ! i = JStr t \<longrightarrow>
       (\<exists>d'. returned (patch s object [AddOperation (pp @ CHR ''/'' # seg) (JStr v)]) = Inr d' \<and>
             getValueByPointer d' pp = Inr (JArr (arr[i := JStr (t @ v)])))) \<and>
    (i < length arr \<and> (\<forall>t. arr ! i \<noteq> JStr t) \<longrightarrow>
       (\<exists>d'. returned (patch s object [AddOperation (pp @ CHR ''/'' # seg) (JStr v)]) = Inr d' \<and>
             getValueByPointer d' pp = Inr (JArr (arr[i := JStr v])))) \<and>
    (i = length arr \<longrightarrow>
       (\<exists>d'. returned (patch s object [AddOperation (pp @ CHR ''/'' # seg) (JStr v)]) = Inr d' \<and>
             getValueByPointer d' pp = Inr (JArr (arr @ [JStr v])))) \<and>
    (i \<le> length arr \<and> (\<forall>t. w \<noteq> JStr t) \<longrightarrow>
       (\<exists>d'. returned (patch s object [AddOperation (pp @ CHR ''/'' # seg) w]) = Inr d' \<and>
             getValueByPointer d' pp = Inr (JArr (take i arr @ w # drop i arr))))"
proof (intro conjI allI impI)
  note str = string_add_in_array [OF assms, of v]
  {
    fix t assume "i < length arr \<and> arr ! i = JStr t"
    with str show "\<exists>d'. returned (patch s object [AddOperation (pp @ CHR ''/'' # seg) (JStr v)]) = Inr d' \<and>
             getValueByPointer d' pp = Inr (JArr (arr[i := JStr (t @ v)]))"
      unfolding returned_patch patchAll_single by (simp add: arraySet_def)
  next
    assume "i < length arr \<and> (\<forall>t. arr ! i \<noteq> JStr t)"
    with str show "\<exists>d'. returned (patch s object [AddOperation (pp @ CHR ''/'' # seg) (JStr v)]) = Inr d' \<and>
             getValueByPointer d' pp = Inr (JArr (arr[i := JStr v]))"
      unfolding returned_patch patchAll_single by (simp add: arraySet_def patchValue_other)
  next
    assume "i = length arr"
    with str show "\<exists>d'. returned (patch s object [AddOperation (pp @ CHR ''/'' # seg) (JStr v)]) = Inr d' \<and>
             getValueByPointer d' pp = Inr (JArr (arr @ [JStr v]))"
      unfolding returned_patch patchAll_single by (simp add: arraySet_def)
  next
    assume "i \<le> length arr \<and> (\<forall>t. w \<noteq> JStr t)"
    then have "\<forall>t. w \<noteq> JStr t" by simp
    from other_add_in_array [OF assms this]
    show "\<exists>d'. returned (patch s object [AddOperation (pp @ CHR ''/'' # seg) w]) = Inr d' \<and>
             getValueByPointer d' pp = Inr (JArr (take i arr @ w # drop i arr))"
      unfolding returned_patch patchAll_single .
  }
qed

section \<open>Pointers of several keys\<close>





section \<open>Two pointers that part at a container\<close>


















section \<open>The documents in use before a call\<close>

text \<open>
  After \<open>safePatch\<close> and after \<open>patch\<close>, successful or not, every reference that was in use
  before the call, the caller's document among them, holds the value it held before,
  and a reference \<open>patch\<close> returns was not in use before the call. This is a statement
  about lists of operations whose values share no object with a document in use:
  the store holds the value of an operation by value.
\<close>

lemma input_not_mutated:
  "object < fresh s \<Longrightarrow>
   (\<forall>a < fresh s. mem (snd (safePatch s object patches)) a = mem s a) \<and>
   (\<forall>a < fresh s. mem (snd (patch s object patches)) a = mem s a) \<and>
   (\<forall>r. fst (patch s object patches) = Inr r \<longrightarrow> fresh s \<le> r)"
  using keeps_patch [of object s patches]
  by (auto simp: keeps_def snd_safePatch)

section \<open>The claims\<close>

text \<open>
  C9. With an empty operation list, \<open>patch\<close> succeeds and returns a reference other than
  the caller's, to a document equal to the caller's; the caller's document is as before.
  (A reference in use is one below \<open>fresh\<close>.)
\<close>
theorem patch_empty_list:
  "object < fresh s \<Longrightarrow>
   \<exists>r s'. patch s object [] = (Inr r, s') \<and> mem s' r = mem s object \<and> r \<noteq> object
           \<and> mem s' object = mem s object"
  by (auto simp: patch_def structuredClone_def allocate_def)

theorem patch_empty_list_witness:
  "(0::nat) < fresh (holding (JObj [(''name'', JStr ''John'')])) \<and>
   (\<exists>r s'. patch (holding (JObj [(''name'', JStr ''John'')])) 0 [] = (Inr r, s')
      \<and> mem s' r = JObj [(''name'', JStr ''John'')] \<and> r \<noteq> 0
      \<and> mem s' 0 = JObj [(''name'', JStr ''John'')])"
  using patch_empty_list [of 0 "holding (JObj [(''name'', JStr ''John'')])"]
  by (simp add: holding_def)

text \<open>
  C2. The claim is that no call changes the caller's document, for every list of
  operations. \<open>patch\<close> copies the document (line 22) and nothing else, and the library
  stores the value of an operation as it is given (\<open>obj[key] = this.value\<close>). A list
  whose values are objects of the caller's own document therefore puts those objects
  into the copy, and a later operation of the list writes through them: with
  \<open>D = {a: {x: 1}}\<close>, the list \<open>add('/b', D.a)\<close>, \<open>replace('/b/x', 2)\<close> leaves the caller
  with \<open>D = {a: {x: 2}}\<close>. The store of this development holds the value of an operation
  by value and does not express such a list; for the lists it does express, those
  whose values share no object with a document in use, \<open>input_not_mutated\<close> above is
  the claim.
\<close>

text \<open>
  C3. \<open>safePatch\<close> never throws: it returns a result, which is \<open>Success\<close> with what
  \<open>patch\<close> returned, or \<open>Failure\<close> with what \<open>patch\<close> threw.
\<close>
theorem safePatch_never_throws:
  "\<exists>result. fst (safePatch s object patches) = Inr result \<and>
     (case result of
        Success r \<Rightarrow> fst (patch s object patches) = Inr r
      | Failure e \<Rightarrow> fst (patch s object patches) = Inl e)"
  by (simp add: fst_safePatch split: sum.splits)

text \<open>
  C10. The \<open>_get\<close> operation is neither rejected nor singled out by the loop: it goes to
  \<open>applyPatch\<close> like any operation that is not a string add, and there it reads and
  changes nothing. For every pointer that can be read in the document, \<open>patch\<close> with the
  single operation \<open>_get\<close> succeeds and returns a document equal to the input.
\<close>
theorem get_operation_is_a_no_op:
  "getValueByPointer (mem s object) p = Inr x \<Longrightarrow>
   returned (patch s object [GetOperation p u]) = Inr (mem s object)"
  by (simp add: returned_patch patchStep_def get_by_pointer del: applyOperation.simps)

theorem get_operation_is_a_no_op_witness:
  "getValueByPointer (mem (holding (JObj [(''name'', JStr ''John'')])) 0) ''/name''
     = Inr (JStr ''John'') \<and>
   returned (patch (holding (JObj [(''name'', JStr ''John'')])) 0
               [GetOperation ''/name'' JUndefined])
     = Inr (JObj [(''name'', JStr ''John'')])"
proof -
  have g: "getValueByPointer (mem (holding (JObj [(''name'', JStr ''John'')])) 0) ''/name''
             = Inr (JStr ''John'')"
    by (simp add: run_defs)
  from get_operation_is_a_no_op [OF g, of JUndefined] g show ?thesis
    by (simp add: holding_def)
qed

text \<open>
  C6. The claim is that a test fails exactly when the value at its path is not deeply
  equal to the value of the operation, and that on a match the document is returned
  unchanged. The comparison of the library calls \<open>b.hasOwnProperty\<close> on the value of the
  operation, so a value that owns a member named \<open>hasOwnProperty\<close> makes it throw. On
  \<open>{a: {hasOwnProperty: 1}}\<close> the path \<open>/a\<close> holds \<open>{hasOwnProperty: 1}\<close>, and the test of
  \<open>/a\<close> against that same value does not succeed: \<open>safePatch\<close> returns the failure of a
  \<open>TypeError\<close>.
\<close>
theorem test_of_equal_value_throws:
  "getValueByPointer (JObj [(''a'', JObj [(''hasOwnProperty'', JNum 1)])]) ''/a''
     = Inr (JObj [(''hasOwnProperty'', JNum 1)]) \<and>
   returnedSafe (safePatch (holding (JObj [(''a'', JObj [(''hasOwnProperty'', JNum 1)])])) 0
                   [TestOperation ''/a'' (JObj [(''hasOwnProperty'', JNum 1)])])
     = Inr (Failure TypeError)"
  by (simp add: safePatch_test run_defs)

text \<open>
  C5. The claim says that a remove or a replace at a path that does not exist makes the
  call fail. On \<open>{name: "John"}\<close> neither does: the remove succeeds and returns the
  document unchanged, the replace succeeds and returns the document with the new member.
\<close>
theorem missing_path_is_not_an_error:
  "returnedSafe (safePatch (holding (JObj [(''name'', JStr ''John'')])) 0
                   [RemoveOperation ''/nonexistent''])
     = Inr (Success (JObj [(''name'', JStr ''John'')])) \<and>
   returnedSafe (safePatch (holding (JObj [(''name'', JStr ''John'')])) 0
                   [ReplaceOperation ''/nonexistent'' (JStr ''test'')])
     = Inr (Success (JObj [(''name'', JStr ''John''), (''nonexistent'', JStr ''test'')]))"
  by (simp add: returnedSafe_safePatch run_defs)






text \<open>
  C7. The claim is that an add at an index of an array inserts the value and shifts the
  later elements, in particular when the value is a string and the element at the index
  is no string. \<open>patch\<close> turns every add of a string into a replace (lines 34 to 39),
  whatever the path holds: on \<open>{items: [1, 2, 3]}\<close> the add of \<open>"x"\<close> at \<open>/items/1\<close>
  overwrites the element \<open>2\<close> and returns \<open>{items: [1, "x", 3]}\<close>, while the add of the
  number \<open>9\<close> at the same index inserts and returns \<open>{items: [1, 9, 2, 3]}\<close>.
\<close>
theorem string_add_overwrites_array_element:
  "returned (patch (holding (JObj [(''items'', JArr [JNum 1, JNum 2, JNum 3])])) 0
              [AddOperation ''/items/1'' (JStr ''x'')])
     = Inr (JObj [(''items'', JArr [JNum 1, JStr ''x'', JNum 3])]) \<and>
   returned (patch (holding (JObj [(''items'', JArr [JNum 1, JNum 2, JNum 3])])) 0
              [AddOperation ''/items/1'' (JNum 9)])
     = Inr (JObj [(''items'', JArr [JNum 1, JNum 9, JNum 2, JNum 3])])"
  by (simp add: returned_patch run_defs)




end
